theory Spec2Isabelle
  imports Complex_Main
begin

section \<open>Contour tracing of \<^verbatim>\<open>bin/others/extract_contours.py\<close>\<close>

text \<open>
  The script extracts, for every slice of a binary image, the rim pixels of the object
  and orders them into a closed polyline. The image handling is done by library calls;
  the embedding starts at the list \<^verbatim>\<open>contour\<close> of rim pixel positions (lines 109-113 of
  the script) and covers the rest of the slice: the empty check, the tour loop, the
  closing segment, the file written, and the three helpers \<^verbatim>\<open>__draw_line\<close>,
  \<^verbatim>\<open>__find_nearest\<close> and \<^verbatim>\<open>__dist\<close>.

  A contour position is the list of its integer coordinates (\<^verbatim>\<open>x, y, z, ...\<close>), as the
  script builds it; the coordinates are array indices, far from the bounds of a machine
  integer, and are integers here. The script computes with double precision floats; the
  embedding computes with real numbers. On integer coordinates the halves of
  \<^verbatim>\<open>__draw_line\<close> are exact in both, and two distances compare in floats as they do in
  the reals. A tuple \<^verbatim>\<open>(a, b)\<close> of the script is the list of its components.
\<close>

subsection \<open>Values and errors\<close>

datatype error = IndexError | ZeroDivisionError

text \<open>
  \<^verbatim>\<open>__find_nearest\<close> returns either \<^verbatim>\<open>False\<close> or a position. Python's \<^verbatim>\<open>==\<close> does not
  tell \<^verbatim>\<open>False\<close> from the integer \<^verbatim>\<open>0\<close>, which \<open>py_eq_False\<close> reproduces.
\<close>

datatype pyval = PyFalse | PyInt nat

fun py_eq_False :: "pyval \<Rightarrow> bool" where
  "py_eq_False PyFalse = True"
| "py_eq_False (PyInt n) = (n = 0)"

text \<open>Used as a subscript, \<^verbatim>\<open>False\<close> is the integer \<^verbatim>\<open>0\<close>.\<close>

fun py_index :: "pyval \<Rightarrow> nat" where
  "py_index PyFalse = 0"
| "py_index (PyInt n) = n"

text \<open>Subscription \<^verbatim>\<open>xs[i]\<close> of a list with a non-negative index.\<close>

definition getitem :: "'a list \<Rightarrow> nat \<Rightarrow> error + 'a" where
  "getitem xs i = (if i < length xs then Inr (xs ! i) else Inl IndexError)"

subsection \<open>The helpers\<close>

text \<open>
  \<^verbatim>\<open>__dist(p1, p2)\<close>:
  \<^verbatim>\<open>math.sqrt(math.pow(p1[0]- p2[0], 2) + math.pow(p1[1]- p2[1], 2))\<close>.
  The subscripts are evaluated from left to right.
\<close>

definition dist_pt :: "int list \<Rightarrow> int list \<Rightarrow> error + real" where
  "dist_pt p1 p2 =
     (case getitem p1 0 of Inl e \<Rightarrow> Inl e | Inr a0 \<Rightarrow>
      case getitem p2 0 of Inl e \<Rightarrow> Inl e | Inr b0 \<Rightarrow>
      case getitem p1 1 of Inl e \<Rightarrow> Inl e | Inr a1 \<Rightarrow>
      case getitem p2 1 of Inl e \<Rightarrow> Inl e | Inr b1 \<Rightarrow>
        Inr (sqrt ((real_of_int (a0 - b0))\<^sup>2 + (real_of_int (a1 - b1))\<^sup>2)))"

text \<open>
  \<^verbatim>\<open>__draw_line(p1, p2, divider)\<close>: the two deltas are computed first (a division by
  \<^verbatim>\<open>float(divider)\<close> each, which fails for \<^verbatim>\<open>divider = 0\<close>; \<^verbatim>\<open>main\<close> passes 2), then
  one tuple is appended for each \<^verbatim>\<open>i\<close> of \<^verbatim>\<open>range(1, divider + 1)\<close>.
\<close>

definition draw_line :: "int list \<Rightarrow> int list \<Rightarrow> int \<Rightarrow> error + real list list" where
  "draw_line p1 p2 divider =
     (case getitem p1 0 of Inl e \<Rightarrow> Inl e | Inr a0 \<Rightarrow>
      case getitem p2 0 of Inl e \<Rightarrow> Inl e | Inr b0 \<Rightarrow>
      if divider = 0 then Inl ZeroDivisionError else
      case getitem p1 1 of Inl e \<Rightarrow> Inl e | Inr a1 \<Rightarrow>
      case getitem p2 1 of Inl e \<Rightarrow> Inl e | Inr b1 \<Rightarrow>
        (let delta_x = real_of_int (a0 - b0) / real_of_int divider;
             delta_y = real_of_int (a1 - b1) / real_of_int divider
         in Inr (map (\<lambda>i. [real_of_int a0 + delta_x * real_of_int i,
                            real_of_int a1 + delta_y * real_of_int i])
                     [1..divider])))"

text \<open>
  \<^verbatim>\<open>__find_nearest(point, contour, processed)\<close>: the \<^verbatim>\<open>for\<close> loop over
  \<^verbatim>\<open>enumerate(contour)\<close> carries the pair \<^verbatim>\<open>(nearest, distance)\<close>.
\<close>

fun find_nearest_loop ::
  "int list \<Rightarrow> (nat \<times> int list) list \<Rightarrow> nat list \<Rightarrow> pyval \<times> real \<Rightarrow> error + (pyval \<times> real)"
where
  "find_nearest_loop point [] processed (nearest, distance) = Inr (nearest, distance)"
| "find_nearest_loop point ((pos, p) # rest) processed (nearest, distance) =
     (if pos \<in> set processed then find_nearest_loop point rest processed (nearest, distance)
      else case dist_pt point p of
             Inl e \<Rightarrow> Inl e
           | Inr d \<Rightarrow>
               if d < distance then find_nearest_loop point rest processed (PyInt pos, d)
               else find_nearest_loop point rest processed (nearest, distance))"

definition find_nearest :: "int list \<Rightarrow> int list list \<Rightarrow> nat list \<Rightarrow> error + pyval" where
  "find_nearest point contour processed =
     (case find_nearest_loop point (enumerate 0 contour) processed (PyFalse, 10000000) of
        Inl e \<Rightarrow> Inl e
      | Inr (nearest, distance) \<Rightarrow> if distance > sqrt 8 then Inr PyFalse else Inr nearest)"

subsection \<open>The tour loop of \<^verbatim>\<open>main\<close>\<close>

text \<open>
  The state of the \<^verbatim>\<open>while\<close> loop is \<^verbatim>\<open>(point, processed, contour_final)\<close>. One
  pass either leaves the loop (the condition \<^verbatim>\<open>while point\<close> fails on an empty list, or
  \<^verbatim>\<open>break\<close>) or continues with the next state. \<^verbatim>\<open>divider\<close> is the constant 2.
\<close>

type_synonym tour_state = "int list \<times> nat list \<times> real list list"

datatype loop_ctl = Break tour_state | Continue tour_state

definition divider :: int where
  "divider = 2"

fun tour_body :: "int list list \<Rightarrow> tour_state \<Rightarrow> error + loop_ctl" where
  "tour_body contour (point, processed, contour_final) =
     (if point = [] then Inr (Break (point, processed, contour_final))
      else case find_nearest point contour processed of
             Inl e \<Rightarrow> Inl e
           | Inr nearest_pos \<Rightarrow>
               if py_eq_False nearest_pos then Inr (Break (point, processed, contour_final))
               else (case getitem contour (py_index nearest_pos) of
                       Inl e \<Rightarrow> Inl e
                     | Inr q \<Rightarrow>
                         (case draw_line point q divider of
                            Inl e \<Rightarrow> Inl e
                          | Inr pts \<Rightarrow>
                              Inr (Continue (q, processed @ [py_index nearest_pos],
                                             contour_final @ pts)))))"

function tour_loop :: "int list list \<Rightarrow> tour_state \<Rightarrow> error + tour_state" where
  "tour_loop contour s =
     (case tour_body contour s of
        Inl e \<Rightarrow> Inl e
      | Inr (Break s') \<Rightarrow> Inr s'
      | Inr (Continue s') \<Rightarrow> tour_loop contour s')"
  by pat_completeness auto

subsection \<open>Facts about the search, for the termination of the loop\<close>

lemma getitem_simps:
  "i < length xs \<Longrightarrow> getitem xs i = Inr (xs ! i)"
  "\<not> i < length xs \<Longrightarrow> getitem xs i = Inl IndexError"
  by (simp_all add: getitem_def)

lemma fnl_le:
  "find_nearest_loop point es processed (nearest, distance) = Inr (nearest', distance')
   \<Longrightarrow> distance' \<le> distance"
proof (induction es arbitrary: nearest distance)
  case Nil
  then show ?case by simp
next
  case (Cons e es)
  obtain pos p where e: "e = (pos, p)" by (cases e)
  show ?case
  proof (cases "pos \<in> set processed")
    case True
    with Cons.prems e show ?thesis by (simp add: Cons.IH)
  next
    case False
    with Cons.prems e obtain d where d: "dist_pt point p = Inr d"
      by (auto split: sum.splits)
    show ?thesis
    proof (cases "d < distance")
      case True
      with Cons.prems e d False
      have "find_nearest_loop point es processed (PyInt pos, d) = Inr (nearest', distance')"
        by simp
      from Cons.IH[OF this] True show ?thesis by simp
    next
      case nless: False
      with Cons.prems e d False
      have "find_nearest_loop point es processed (nearest, distance) = Inr (nearest', distance')"
        by simp
      from Cons.IH[OF this] show ?thesis .
    qed
  qed
qed

lemma fnl_lower:
  "find_nearest_loop point es processed (nearest, distance) = Inr (nearest', distance')
   \<Longrightarrow> e \<in> set es \<Longrightarrow> fst e \<notin> set processed
   \<Longrightarrow> \<exists>d. dist_pt point (snd e) = Inr d \<and> distance' \<le> d"
proof (induction es arbitrary: nearest distance)
  case Nil
  then show ?case by simp
next
  case (Cons a es)
  obtain pos p where a: "a = (pos, p)" by (cases a)
  show ?case
  proof (cases "pos \<in> set processed")
    case True
    with Cons.prems a
    have run: "find_nearest_loop point es processed (nearest, distance) = Inr (nearest', distance')"
      and "e \<in> set es" by auto
    then show ?thesis using Cons.IH Cons.prems(3) by blast
  next
    case False
    with Cons.prems a obtain d where d: "dist_pt point p = Inr d"
      by (auto split: sum.splits)
    show ?thesis
    proof (cases "d < distance")
      case True
      with Cons.prems a d False
      have run: "find_nearest_loop point es processed (PyInt pos, d) = Inr (nearest', distance')"
        by simp
      show ?thesis
      proof (cases "e = a")
        case True
        with a d fnl_le[OF run] show ?thesis by simp
      next
        case False
        with Cons.prems(2) have "e \<in> set es" by simp
        with run Cons.IH Cons.prems(3) show ?thesis by blast
      qed
    next
      case nless: False
      with Cons.prems a d False
      have run: "find_nearest_loop point es processed (nearest, distance) = Inr (nearest', distance')"
        by simp
      show ?thesis
      proof (cases "e = a")
        case True
        with a d fnl_le[OF run] nless show ?thesis by simp
      next
        case False
        with Cons.prems(2) have "e \<in> set es" by simp
        with run Cons.IH Cons.prems(3) show ?thesis by blast
      qed
    qed
  qed
qed

lemma fnl_select:
  assumes "sorted_wrt (<) (map fst es)"
      and "find_nearest_loop point es processed (nearest, distance) = Inr (nearest', distance')"
  shows "(nearest' = nearest \<and> distance' = distance) \<or>
         (\<exists>e \<in> set es. nearest' = PyInt (fst e) \<and> fst e \<notin> set processed \<and>
              dist_pt point (snd e) = Inr distance' \<and> distance' < distance \<and>
              (\<forall>e' \<in> set es. fst e' \<notin> set processed \<longrightarrow> fst e' < fst e \<longrightarrow>
                 (\<exists>d. dist_pt point (snd e') = Inr d \<and> distance' < d)))"
  using assms
proof (induction es arbitrary: nearest distance)
  case Nil
  then show ?case by simp
next
  case (Cons a es)
  obtain pos p where a: "a = (pos, p)" by (cases a)
  from Cons.prems(1) a have sorted: "sorted_wrt (<) (map fst es)"
    and above: "\<And>e'. e' \<in> set es \<Longrightarrow> pos < fst e'" by auto
  let ?sel = "\<lambda>es' bound. \<exists>e \<in> set es'. nearest' = PyInt (fst e) \<and> fst e \<notin> set processed \<and>
              dist_pt point (snd e) = Inr distance' \<and> distance' < bound \<and>
              (\<forall>e' \<in> set es'. fst e' \<notin> set processed \<longrightarrow> fst e' < fst e \<longrightarrow>
                 (\<exists>d. dist_pt point (snd e') = Inr d \<and> distance' < d))"
  show ?case
  proof (cases "pos \<in> set processed")
    case True
    with Cons.prems(2) a
    have "find_nearest_loop point es processed (nearest, distance) = Inr (nearest', distance')"
      by simp
    from Cons.IH[OF sorted this]
    have "(nearest' = nearest \<and> distance' = distance) \<or> ?sel es distance" .
    then show ?thesis
    proof
      assume "?sel es distance"
      then obtain e where "e \<in> set es" "nearest' = PyInt (fst e)" "fst e \<notin> set processed"
        "dist_pt point (snd e) = Inr distance'" "distance' < distance"
        "\<forall>e' \<in> set es. fst e' \<notin> set processed \<longrightarrow> fst e' < fst e \<longrightarrow>
                 (\<exists>d. dist_pt point (snd e') = Inr d \<and> distance' < d)" by blast
      with True a have "?sel (a # es) distance" by (intro bexI[of _ e]) auto
      then show ?thesis by blast
    qed simp
  next
    case False
    with Cons.prems(2) a obtain d where d: "dist_pt point p = Inr d"
      by (auto split: sum.splits)
    show ?thesis
    proof (cases "d < distance")
      case True
      with Cons.prems(2) a d False
      have "find_nearest_loop point es processed (PyInt pos, d) = Inr (nearest', distance')"
        by simp
      from Cons.IH[OF sorted this]
      have "(nearest' = PyInt pos \<and> distance' = d) \<or> ?sel es d" .
      then have "?sel (a # es) distance"
      proof
        assume "nearest' = PyInt pos \<and> distance' = d"
        with a d False True above show ?thesis
          by (intro bexI[of _ a]) (auto dest: above)
      next
        assume "?sel es d"
        then obtain e where e: "e \<in> set es" "nearest' = PyInt (fst e)" "fst e \<notin> set processed"
          "dist_pt point (snd e) = Inr distance'" "distance' < d"
          "\<forall>e' \<in> set es. fst e' \<notin> set processed \<longrightarrow> fst e' < fst e \<longrightarrow>
                 (\<exists>d. dist_pt point (snd e') = Inr d \<and> distance' < d)" by blast
        with True a d show ?thesis by (intro bexI[of _ e]) auto
      qed
      then show ?thesis by blast
    next
      case nless: False
      with Cons.prems(2) a d False
      have run: "find_nearest_loop point es processed (nearest, distance) = Inr (nearest', distance')"
        by simp
      from Cons.IH[OF sorted this]
      have "(nearest' = nearest \<and> distance' = distance) \<or> ?sel es distance" .
      then show ?thesis
      proof
        assume "?sel es distance"
        then obtain e where e: "e \<in> set es" "nearest' = PyInt (fst e)" "fst e \<notin> set processed"
          "dist_pt point (snd e) = Inr distance'" "distance' < distance"
          "\<forall>e' \<in> set es. fst e' \<notin> set processed \<longrightarrow> fst e' < fst e \<longrightarrow>
                 (\<exists>d. dist_pt point (snd e') = Inr d \<and> distance' < d)" by blast
        with nless a d have "?sel (a # es) distance" by (intro bexI[of _ e]) auto
        then show ?thesis by blast
      qed simp
    qed
  qed
qed


lemma sorted_fst_enumerate: "sorted_wrt (<) (map fst (enumerate k xs))"
  by (simp add: map_fst_enumerate)

lemma find_nearest_PyInt:
  assumes "find_nearest point contour processed = Inr (PyInt n)"
  shows "n < length contour \<and> n \<notin> set processed \<and>
         (\<exists>d. dist_pt point (contour ! n) = Inr d \<and> d \<le> sqrt 8 \<and>
              (\<forall>m < length contour. m \<notin> set processed \<longrightarrow>
                 (\<exists>d'. dist_pt point (contour ! m) = Inr d' \<and> d \<le> d' \<and> (m < n \<longrightarrow> d < d'))))"
proof -
  let ?es = "enumerate 0 contour"
  from assms obtain nearest distance where
    run: "find_nearest_loop point ?es processed (PyFalse, 10000000) = Inr (nearest, distance)"
    and thr: "\<not> distance > sqrt 8" and nearest: "nearest = PyInt n"
    by (auto simp: find_nearest_def split: sum.splits if_splits)
  from fnl_select[OF sorted_fst_enumerate run] nearest
  obtain e where e: "e \<in> set ?es" "fst e = n" "n \<notin> set processed"
    "dist_pt point (snd e) = Inr distance"
    and tie: "\<forall>e' \<in> set ?es. fst e' \<notin> set processed \<longrightarrow> fst e' < fst e \<longrightarrow>
                 (\<exists>d. dist_pt point (snd e') = Inr d \<and> distance < d)"
    by auto
  from e(1,2) have n: "n < length contour" and sn: "snd e = contour ! n"
    by (auto simp: in_set_enumerate_eq)
  have "\<exists>d'. dist_pt point (contour ! m) = Inr d' \<and> distance \<le> d' \<and> (m < n \<longrightarrow> distance < d')"
    if m: "m < length contour" "m \<notin> set processed" for m
  proof -
    have mem: "(m, contour ! m) \<in> set ?es" using m(1) by (simp add: in_set_enumerate_eq)
    from fnl_lower[OF run mem] m(2)
    obtain d' where d': "dist_pt point (contour ! m) = Inr d'" "distance \<le> d'" by auto
    from tie mem m(2) e(2) d'(1) have "m < n \<longrightarrow> distance < d'" by fastforce
    with d' show ?thesis by blast
  qed
  with n e(3,4) sn thr show ?thesis by auto
qed

lemma find_nearest_PyFalse:
  assumes "find_nearest point contour processed = Inr PyFalse"
      and "m < length contour" "m \<notin> set processed"
  shows "\<exists>d. dist_pt point (contour ! m) = Inr d \<and> sqrt 8 < d"
proof -
  let ?es = "enumerate 0 contour"
  from assms(1) obtain nearest distance where
    run: "find_nearest_loop point ?es processed (PyFalse, 10000000) = Inr (nearest, distance)"
    and alt: "distance > sqrt 8 \<or> nearest = PyFalse"
    by (auto simp: find_nearest_def split: sum.splits if_splits)
  have big: "sqrt 8 < (10000000::real)"
    by (rule real_less_lsqrt) simp_all
  have "sqrt 8 < distance"
  proof (cases "distance > sqrt 8")
    case False
    with alt have "nearest = PyFalse" by simp
    with fnl_select[OF sorted_fst_enumerate run] have "distance = 10000000" by auto
    with big show ?thesis by simp
  qed simp
  moreover have mem: "(m, contour ! m) \<in> set ?es" using assms(2) by (simp add: in_set_enumerate_eq)
  from fnl_lower[OF run mem] assms(3)
  obtain d where "dist_pt point (contour ! m) = Inr d" "distance \<le> d" by auto
  ultimately show ?thesis by auto
qed

lemma tour_body_Continue:
  assumes "tour_body contour (point, processed, contour_final) = Inr (Continue s')"
  shows "\<exists>n pts. find_nearest point contour processed = Inr (PyInt n) \<and> n \<noteq> 0 \<and>
           n < length contour \<and> n \<notin> set processed \<and> point \<noteq> [] \<and>
           draw_line point (contour ! n) divider = Inr pts \<and>
           s' = (contour ! n, processed @ [n], contour_final @ pts)"
proof -
  from assms obtain r where r: "find_nearest point contour processed = Inr r"
    "\<not> py_eq_False r" and ne: "point \<noteq> []"
    by (auto split: if_splits sum.splits)
  then obtain n where n: "r = PyInt n" "n \<noteq> 0" by (cases r) auto
  from find_nearest_PyInt r(1) n(1) have bounds: "n < length contour" "n \<notin> set processed"
    by blast+
  with assms r n ne show ?thesis
    by (auto simp: getitem_simps split: sum.splits)
qed

lemma tour_body_Break:
  assumes "tour_body contour (point, processed, contour_final) = Inr (Break s')"
  shows "s' = (point, processed, contour_final) \<and>
         (point = [] \<or> (\<exists>r. find_nearest point contour processed = Inr r \<and> py_eq_False r))"
  using assms by (auto split: if_splits sum.splits)

termination tour_loop
proof (relation "measure (\<lambda>(contour, (point, processed, contour_final)).
                    card ({..<length contour} - set processed))")
  show "wf (measure (\<lambda>(contour, (point, processed, contour_final)).
                    card ({..<length contour} - set processed)))" by simp
next
  fix contour :: "int list list" and s :: tour_state and x2 x2a
  assume a: "tour_body contour s = Inr x2" "x2 = Continue x2a"
  obtain point processed contour_final where s: "s = (point, processed, contour_final)"
    by (cases s)
  from tour_body_Continue a s obtain n pts where
    n: "n < length contour" "n \<notin> set processed"
    and s': "x2a = (contour ! n, processed @ [n], contour_final @ pts)"
    by blast
  from n have "{..<length contour} - set (processed @ [n]) \<subset> {..<length contour} - set processed"
    by auto
  then have "card ({..<length contour} - set (processed @ [n]))
               < card ({..<length contour} - set processed)"
    by (intro psubset_card_mono) auto
  with s s' show "((contour, x2a), (contour, s)) \<in> measure (\<lambda>(contour, (point, processed, contour_final)).
                    card ({..<length contour} - set processed))"
    by simp
qed

text \<open>The equation of the loop is unfolded by hand, one pass at a time.\<close>

declare tour_loop.simps [simp del]

subsection \<open>The rest of the slice\<close>

text \<open>
  Lines 120-132 of \<^verbatim>\<open>main\<close>: the start at \<^verbatim>\<open>contour[0]\<close>, the tour loop and the connection
  between the last and the first point.
\<close>

definition order_path :: "int list list \<Rightarrow> error + real list list" where
  "order_path contour =
     (case getitem contour 0 of Inl e \<Rightarrow> Inl e | Inr point \<Rightarrow>
      case tour_loop contour (point, [0], []) of
        Inl e \<Rightarrow> Inl e
      | Inr (point', processed, contour_final) \<Rightarrow>
          (case getitem contour 0 of Inl e \<Rightarrow> Inl e | Inr first \<Rightarrow>
           case draw_line point' first divider of
             Inl e \<Rightarrow> Inl e
           | Inr pts \<Rightarrow> Inr (contour_final @ pts)))"

text \<open>
  Lines 115-138: an empty contour is logged as a warning and the slice is skipped;
  otherwise the ordered points are written to the file of the slice, one point per line.
  The files are a map from file names to the points written (the formatting of a number
  as text is not modelled), the logger is the list of its messages.
\<close>

datatype log_entry = LogWarning string | LogDebug string

record world =
  files :: "string \<rightharpoonup> real list list"
  logged :: "log_entry list"

definition main_slice :: "world \<Rightarrow> string \<Rightarrow> int list list \<Rightarrow> error + world" where
  "main_slice w file_name contour =
     (if 0 = length contour
      then Inr (w\<lparr>logged := logged w @
                  [LogWarning (''Empty contour for file '' @ file_name @ ''. Skipping.'')]\<rparr>)
      else case order_path contour of
             Inl e \<Rightarrow> Inl e
           | Inr contour_final \<Rightarrow>
               Inr (w\<lparr>logged := logged w @ [LogDebug (''Creating file '' @ file_name @ ''...'')],
                      files := (files w)(file_name \<mapsto> contour_final)\<rparr>))"

text \<open>
  A contour is well formed for the tracing when every position has at least the two
  coordinates the helpers read; the positions of a slice of a 2D or 3D image do.
\<close>

definition two_coords :: "int list list \<Rightarrow> bool" where
  "two_coords contour = (\<forall>p \<in> set contour. 2 \<le> length p)"

text \<open>The state, and the outcome of a pass, with the current point cut to two coordinates.\<close>

fun first_two :: "tour_state \<Rightarrow> tour_state" where
  "first_two (point, processed, contour_final) = (take 2 point, processed, contour_final)"

fun first_two_ctl :: "loop_ctl \<Rightarrow> loop_ctl" where
  "first_two_ctl (Break s) = Break (first_two s)"
| "first_two_ctl (Continue s) = Continue (first_two s)"

subsection \<open>The loop as a transition system\<close>

text \<open>The states the loop passes through, from the start at \<^verbatim>\<open>contour[0]\<close>.\<close>

inductive tour_reach :: "int list list \<Rightarrow> tour_state \<Rightarrow> bool" for contour where
  reach_init: "contour \<noteq> [] \<Longrightarrow> tour_reach contour (contour ! 0, [0], [])"
| reach_step: "tour_reach contour s \<Longrightarrow> tour_body contour s = Inr (Continue s')
                 \<Longrightarrow> tour_reach contour s'"

section \<open>General facts\<close>

subsection \<open>The loop returns, and where it stops\<close>

lemma getitem_two:
  assumes "2 \<le> length p"
  shows "getitem p 0 = Inr (p ! 0)" and "getitem p (Suc 0) = Inr (p ! Suc 0)"
  using assms by (auto simp: getitem_def)

lemma dist_pt_total:
  "2 \<le> length p \<Longrightarrow> 2 \<le> length q \<Longrightarrow> \<exists>d. dist_pt p q = Inr d"
  by (simp add: dist_pt_def getitem_two)

lemma draw_line_total:
  assumes "2 \<le> length p" "2 \<le> length q"
  shows "\<exists>pts. draw_line p q divider = Inr pts \<and> length pts = 2 \<and> (\<forall>pt \<in> set pts. length pt = 2)"
  using assms by (auto simp: draw_line_def getitem_two divider_def Let_def)

lemma find_nearest_loop_total:
  "2 \<le> length point \<Longrightarrow> \<forall>e \<in> set es. 2 \<le> length (snd e)
   \<Longrightarrow> \<exists>r. find_nearest_loop point es processed acc = Inr r"
proof (induction es arbitrary: acc)
  case Nil
  show ?case by (cases acc) simp
next
  case (Cons a es)
  obtain pos p where a: "a = (pos, p)" by (cases a)
  obtain nearest distance where acc: "acc = (nearest, distance)" by (cases acc)
  from Cons.prems a have "2 \<le> length p" by simp
  with Cons.prems(1) obtain d where d: "dist_pt point p = Inr d"
    using dist_pt_total by blast
  from Cons.prems have rest: "\<And>acc'. \<exists>r. find_nearest_loop point es processed acc' = Inr r"
    by (intro Cons.IH) auto
  show ?case unfolding a acc using d rest by simp
qed

lemma find_nearest_total:
  assumes "2 \<le> length point" "two_coords contour"
  shows "\<exists>r. find_nearest point contour processed = Inr r"
proof -
  have "\<forall>e \<in> set (enumerate 0 contour). 2 \<le> length (snd e)"
    using assms(2) by (auto simp: two_coords_def in_set_enumerate_eq)
  from find_nearest_loop_total[OF assms(1) this]
  obtain nearest distance where
    "find_nearest_loop point (enumerate 0 contour) processed (PyFalse, 10000000) = Inr (nearest, distance)"
    by fastforce
  then show ?thesis by (simp add: find_nearest_def)
qed

lemma tour_body_total:
  assumes "two_coords contour" "point \<in> set contour"
  shows "\<exists>c. tour_body contour (point, processed, contour_final) = Inr c"
proof -
  from assms have pt: "2 \<le> length point" by (simp add: two_coords_def)
  from find_nearest_total[OF pt assms(1)] obtain r where
    r: "find_nearest point contour processed = Inr r" by blast
  show ?thesis
  proof (cases "py_eq_False r")
    case True
    with r show ?thesis by simp
  next
    case False
    then obtain n where n: "r = PyInt n" by (cases r) auto
    from find_nearest_PyInt r n have lt: "n < length contour" by blast
    with assms(1) have "2 \<le> length (contour ! n)" by (simp add: two_coords_def)
    from draw_line_total[OF pt this] obtain pts where
      "draw_line point (contour ! n) divider = Inr pts" by blast
    with r n False lt show ?thesis by (simp add: getitem_simps)
  qed
qed

lemma tour_reach_point:
  "tour_reach contour s \<Longrightarrow> fst s \<in> set contour"
proof (induction rule: tour_reach.induct)
  case reach_init
  then show ?case by simp
next
  case (reach_step s s')
  obtain point processed contour_final where s: "s = (point, processed, contour_final)"
    by (cases s)
  from tour_body_Continue reach_step.hyps(2) s show ?case by fastforce
qed

lemma tour_loop_reach:
  "tour_reach contour s \<Longrightarrow> tour_loop contour s = Inr t
   \<Longrightarrow> tour_reach contour t \<and> tour_body contour t = Inr (Break t)"
proof (induction contour s rule: tour_loop.induct)
  case (1 contour s)
  show ?case
  proof (cases "tour_body contour s")
    case (Inl e)
    with "1.prems"(2) show ?thesis by (simp add: tour_loop.simps[of contour s])
  next
    case (Inr c)
    show ?thesis
    proof (cases c)
      case (Break s')
      obtain point processed contour_final where s: "s = (point, processed, contour_final)"
        by (cases s)
      from tour_body_Break Inr Break s have "s' = s" by blast
      moreover from "1.prems"(2) Inr Break have "t = s'"
        by (simp add: tour_loop.simps[of contour s])
      ultimately show ?thesis using "1.prems"(1) Inr Break by simp
    next
      case (Continue s')
      with Inr "1.prems"(1) have "tour_reach contour s'" by (auto intro: reach_step)
      moreover from "1.prems"(2) Inr Continue have "tour_loop contour s' = Inr t"
        by (simp add: tour_loop.simps[of contour s])
      ultimately show ?thesis using "1.IH"[OF Inr Continue] by blast
    qed
  qed
qed

lemma tour_loop_total:
  "two_coords contour \<Longrightarrow> tour_reach contour s \<Longrightarrow> \<exists>t. tour_loop contour s = Inr t"
proof (induction contour s rule: tour_loop.induct)
  case (1 contour s)
  obtain point processed contour_final where s: "s = (point, processed, contour_final)"
    by (cases s)
  from tour_reach_point[OF "1.prems"(2)] s have "point \<in> set contour" by simp
  from tour_body_total[OF "1.prems"(1) this] s obtain c where
    c: "tour_body contour s = Inr c" by blast
  show ?case
  proof (cases c)
    case (Break s')
    with c have "tour_loop contour s = Inr s'" by (simp add: tour_loop.simps[of contour s])
    then show ?thesis by blast
  next
    case (Continue s')
    with c "1.prems"(2) have "tour_reach contour s'" by (auto intro: reach_step)
    from "1.IH"[OF c Continue "1.prems"(1) this] c Continue show ?thesis
      by (simp add: tour_loop.simps[of contour s])
  qed
qed

subsection \<open>What holds in every state of the loop\<close>

lemma tour_reach_processed:
  "tour_reach contour s \<Longrightarrow> s = (point, processed, contour_final)
   \<Longrightarrow> processed \<noteq> [] \<and> hd processed = 0 \<and> distinct processed \<and>
       (\<forall>i \<in> set processed. i < length contour) \<and> point = contour ! last processed"
proof (induction arbitrary: point processed contour_final rule: tour_reach.induct)
  case reach_init
  then show ?case by auto
next
  case (reach_step s s')
  obtain pt pr cf where s: "s = (pt, pr, cf)" by (cases s)
  from reach_step.IH[OF s] have ih: "pr \<noteq> []" "hd pr = 0" "distinct pr"
    "\<forall>i \<in> set pr. i < length contour" by simp_all
  from tour_body_Continue reach_step.hyps(2) s obtain n pts where
    n: "n < length contour" "n \<notin> set pr" and s': "s' = (contour ! n, pr @ [n], cf @ pts)"
    by blast
  from s' reach_step.prems have "point = contour ! n" "processed = pr @ [n]" by simp_all
  with ih n show ?case by simp
qed

lemma tour_reach_hops:
  "tour_reach contour s \<Longrightarrow> s = (point, processed, contour_final)
   \<Longrightarrow> Suc k < length processed
   \<Longrightarrow> \<exists>d. dist_pt (contour ! (processed ! k)) (contour ! (processed ! Suc k)) = Inr d \<and>
           d \<le> sqrt 8"
proof (induction arbitrary: point processed contour_final rule: tour_reach.induct)
  case reach_init
  then show ?case by auto
next
  case (reach_step s s')
  obtain pt pr cf where s: "s = (pt, pr, cf)" by (cases s)
  from tour_reach_processed[OF reach_step.hyps(1) s]
  have pr: "pr \<noteq> []" and pt: "pt = contour ! last pr" by simp_all
  from tour_body_Continue reach_step.hyps(2) s obtain n pts where
    near: "find_nearest pt contour pr = Inr (PyInt n)"
    and s': "s' = (contour ! n, pr @ [n], cf @ pts)"
    by blast
  from s' reach_step.prems(1) have processed: "processed = pr @ [n]" by simp
  show ?case
  proof (cases "Suc k < length pr")
    case True
    from reach_step.IH[OF s True] True processed show ?thesis
      by (simp add: nth_append)
  next
    case False
    with reach_step.prems(2) processed have k: "Suc k = length pr" by simp
    from k have "k = length pr - 1" by simp
    with pr have "pr ! k = last pr" by (simp add: last_conv_nth)
    with k processed have "processed ! k = last pr" "processed ! Suc k = n"
      by (simp_all add: nth_append)
    moreover from find_nearest_PyInt[OF near]
    obtain d where "dist_pt pt (contour ! n) = Inr d" "d \<le> sqrt 8" by blast
    ultimately show ?thesis using pt by auto
  qed
qed

lemma find_nearest_loop_defined:
  "\<forall>e \<in> set es. fst e \<notin> set processed \<longrightarrow> (\<exists>d. dist_pt point (snd e) = Inr d)
   \<Longrightarrow> \<exists>r. find_nearest_loop point es processed acc = Inr r"
proof (induction es arbitrary: acc)
  case Nil
  show ?case by (cases acc) simp
next
  case (Cons a es)
  obtain pos p where a: "a = (pos, p)" by (cases a)
  obtain nearest distance where acc: "acc = (nearest, distance)" by (cases acc)
  from Cons.prems have rest: "\<And>acc'. \<exists>r. find_nearest_loop point es processed acc' = Inr r"
    by (intro Cons.IH) auto
  show ?case
  proof (cases "pos \<in> set processed")
    case True
    with rest show ?thesis unfolding a acc by simp
  next
    case False
    with Cons.prems a obtain d where "dist_pt point p = Inr d" by auto
    with rest False show ?thesis unfolding a acc by simp
  qed
qed

lemma find_nearest_all_far:
  assumes "\<forall>m < length contour. m \<notin> set processed \<longrightarrow>
             (\<exists>d. dist_pt point (contour ! m) = Inr d \<and> sqrt 8 < d)"
  shows "find_nearest point contour processed = Inr PyFalse"
proof -
  from assms have "\<forall>e \<in> set (enumerate 0 contour). fst e \<notin> set processed \<longrightarrow>
      (\<exists>d. dist_pt point (snd e) = Inr d)"
    by (fastforce simp: in_set_enumerate_eq)
  from find_nearest_loop_defined[OF this] obtain nearest distance where
    "find_nearest_loop point (enumerate 0 contour) processed (PyFalse, 10000000) = Inr (nearest, distance)"
    by fastforce
  then obtain r where r: "find_nearest point contour processed = Inr r"
    by (cases "sqrt 8 < distance") (simp_all add: find_nearest_def)
  show ?thesis
  proof (cases r)
    case PyFalse
    with r show ?thesis by simp
  next
    case (PyInt n)
    from find_nearest_PyInt r PyInt obtain d where
      "n < length contour" "n \<notin> set processed" "dist_pt point (contour ! n) = Inr d" "d \<le> sqrt 8"
      by blast
    with assms show ?thesis by fastforce
  qed
qed

lemma draw_line_shape:
  assumes "draw_line p q divider = Inr pts"
  shows "length pts = 2 \<and> (\<forall>pt \<in> set pts. length pt = 2)"
  using assms
  by (auto simp: draw_line_def divider_def Let_def split: sum.splits if_splits)

lemma tour_reach_path:
  "tour_reach contour s \<Longrightarrow> s = (point, processed, contour_final)
   \<Longrightarrow> length contour_final = 2 * (length processed - 1) \<and>
       (\<forall>pt \<in> set contour_final. length pt = 2) \<and>
       (\<forall>k. Suc k < length processed \<longrightarrow>
          draw_line (contour ! (processed ! k)) (contour ! (processed ! Suc k)) divider
            = Inr (take 2 (drop (2 * k) contour_final)))"
proof (induction arbitrary: point processed contour_final rule: tour_reach.induct)
  case reach_init
  then show ?case by auto
next
  case (reach_step s s')
  obtain pt pr cf where s: "s = (pt, pr, cf)" by (cases s)
  from tour_reach_processed[OF reach_step.hyps(1) s]
  have pr: "pr \<noteq> []" and pt: "pt = contour ! last pr" by simp_all
  from reach_step.IH[OF s] have len: "length cf = 2 * (length pr - 1)"
    and two: "\<forall>pt \<in> set cf. length pt = 2"
    and seg: "\<And>k. Suc k < length pr \<Longrightarrow>
          draw_line (contour ! (pr ! k)) (contour ! (pr ! Suc k)) divider
            = Inr (take 2 (drop (2 * k) cf))" by simp_all
  from tour_body_Continue reach_step.hyps(2) s obtain n pts where
    line: "draw_line pt (contour ! n) divider = Inr pts"
    and s': "s' = (contour ! n, pr @ [n], cf @ pts)"
    by blast
  from draw_line_shape[OF line] have pts: "length pts = 2" "\<forall>pt \<in> set pts. length pt = 2"
    by simp_all
  from s' reach_step.prems have processed: "processed = pr @ [n]"
    and final: "contour_final = cf @ pts" by simp_all
  have "draw_line (contour ! (processed ! k)) (contour ! (processed ! Suc k)) divider
            = Inr (take 2 (drop (2 * k) contour_final))" if k: "Suc k < length processed" for k
  proof (cases "Suc k < length pr")
    case True
    with len have "2 * k + 2 \<le> length cf" by simp
    then have "take 2 (drop (2 * k) (cf @ pts)) = take 2 (drop (2 * k) cf)" by simp
    with seg[OF True] True processed final show ?thesis by (simp add: nth_append)
  next
    case False
    with k processed have k': "Suc k = length pr" by simp
    then have "k = length pr - 1" by simp
    with pr have "pr ! k = last pr" by (simp add: last_conv_nth)
    with k' processed have nodes: "processed ! k = last pr" "processed ! Suc k = n"
      by (simp_all add: nth_append)
    from k' len have "2 * k = length cf" by simp
    with pts(1) final have "take 2 (drop (2 * k) contour_final) = pts" by simp
    with nodes line pt show ?thesis by simp
  qed
  moreover from len pts(1) pr processed final
  have "length contour_final = 2 * (length processed - 1)" by (cases pr) simp_all
  moreover from two pts(2) final have "\<forall>pt \<in> set contour_final. length pt = 2" by auto
  ultimately show ?case by blast
qed

lemma tour_reach_cluster:
  assumes sep: "\<forall>i < length contour. \<forall>j < length contour. i \<in> C \<longrightarrow> j \<notin> C \<longrightarrow>
                  (\<exists>d. dist_pt (contour ! i) (contour ! j) = Inr d \<and> sqrt 8 < d)"
      and zero: "0 \<in> C"
  shows "tour_reach contour s \<Longrightarrow> s = (point, processed, contour_final) \<Longrightarrow> set processed \<subseteq> C"
proof (induction arbitrary: point processed contour_final rule: tour_reach.induct)
  case reach_init
  with zero show ?case by auto
next
  case (reach_step s s')
  obtain pt pr cf where s: "s = (pt, pr, cf)" by (cases s)
  from tour_reach_processed[OF reach_step.hyps(1) s]
  have pr: "pr \<noteq> []" and pt: "pt = contour ! last pr"
    and bound: "\<forall>i \<in> set pr. i < length contour" by simp_all
  from reach_step.IH[OF s] have sub: "set pr \<subseteq> C" .
  from pr sub have lastC: "last pr \<in> C" by auto
  from pr bound have lastlt: "last pr < length contour" by auto
  from tour_body_Continue reach_step.hyps(2) s obtain n pts where
    near: "find_nearest pt contour pr = Inr (PyInt n)"
    and s': "s' = (contour ! n, pr @ [n], cf @ pts)"
    by blast
  from find_nearest_PyInt[OF near] obtain d where
    n: "n < length contour" and d: "dist_pt pt (contour ! n) = Inr d" "d \<le> sqrt 8" by blast
  have "n \<in> C"
  proof (rule ccontr)
    assume "n \<notin> C"
    with sep lastC lastlt n obtain d' where
      "dist_pt (contour ! last pr) (contour ! n) = Inr d'" "sqrt 8 < d'" by blast
    with d pt show False by simp
  qed
  with sub s' reach_step.prems show ?case by auto
qed

subsection \<open>Evaluation on concrete positions\<close>

lemma sqrt_numeral_sq: "sqrt ((numeral n)\<^sup>2) = (numeral n :: real)"
  by (simp only: real_sqrt_abs abs_numeral)

lemma sqrt_less_numeral: "sqrt x < numeral n \<longleftrightarrow> x < (numeral n)\<^sup>2"
proof -
  have "sqrt x < numeral n \<longleftrightarrow> sqrt x < sqrt ((numeral n)\<^sup>2)"
    by (simp only: sqrt_numeral_sq)
  also have "\<dots> \<longleftrightarrow> x < (numeral n)\<^sup>2"
    by (rule real_sqrt_less_iff)
  finally show ?thesis .
qed

lemma numeral_less_sqrt: "numeral n < sqrt x \<longleftrightarrow> (numeral n)\<^sup>2 < x"
proof -
  have "numeral n < sqrt x \<longleftrightarrow> sqrt ((numeral n)\<^sup>2) < sqrt x"
    by (simp only: sqrt_numeral_sq)
  also have "\<dots> \<longleftrightarrow> (numeral n)\<^sup>2 < x"
    by (rule real_sqrt_less_iff)
  finally show ?thesis .
qed

lemma dist_pt_pair:
  "dist_pt [a0, a1] [b0, b1] =
     Inr (sqrt ((real_of_int (a0 - b0))\<^sup>2 + (real_of_int (a1 - b1))\<^sup>2))"
  by (simp add: dist_pt_def getitem_def)

lemma draw_line_pair:
  "draw_line [a0, a1] [b0, b1] 2 =
     Inr [[real_of_int a0 + real_of_int (a0 - b0) / 2, real_of_int a1 + real_of_int (a1 - b1) / 2],
          [real_of_int a0 + real_of_int (a0 - b0), real_of_int a1 + real_of_int (a1 - b1)]]"
  by (simp add: draw_line_def getitem_def upto.simps)

lemmas eval_tour = tour_loop.simps find_nearest_def enumerate_eq_zip dist_pt_pair upt_rec
  getitem_def draw_line_pair divider_def sqrt_less_numeral numeral_less_sqrt

lemma draw_line_misses_destination:
  assumes "a0 \<noteq> b0 \<or> a1 \<noteq> b1"
  shows "\<exists>pts. draw_line [a0, a1] [b0, b1] divider = Inr pts \<and>
           last pts \<noteq> [real_of_int b0, real_of_int b1]"
  using assms by (auto simp: draw_line_pair divider_def)

lemma tour_square:
  "tour_loop [[0, 0], [1, 0], [1, 1], [0, 1]] ([0, 0], [0], []) =
     Inr ([0, 1], [0, 1, 2, 3],
          [[- 1 / 2, 0], [- 1, 0], [1, - 1 / 2], [1, - 1], [3 / 2, 1], [2, 1]])"
  by (simp add: eval_tour)

lemma tour_clusters:
  "tour_loop [[0, 0], [1, 0], [10, 10], [11, 10]] ([0, 0], [0], []) =
     Inr ([1, 0], [0, 1], [[- 1 / 2, 0], [- 1, 0]])"
  by (simp add: eval_tour)

lemma tour_line:
  "tour_loop [[0, 0], [2, 0], [4, 0], [6, 0]] ([0, 0], [0], []) =
     Inr ([6, 0], [0, 1, 2, 3], [[- 1, 0], [- 2, 0], [1, 0], [0, 0], [3, 0], [2, 0]])"
  by (simp add: eval_tour)

lemma tour_two_clusters:
  "tour_loop [[0, 0], [2, 0], [4, 0], [6, 0], [12, 0]] ([0, 0], [0], []) =
     Inr ([6, 0], [0, 1, 2, 3], [[- 1, 0], [- 2, 0], [1, 0], [0, 0], [3, 0], [2, 0]])"
  by (simp add: eval_tour)

lemma clusters_rest_far:
  "\<forall>m < length [[0, 0], [1, 0], [10, 10], [11, 10::int]]. m \<notin> set [0, 1] \<longrightarrow>
      (\<exists>d. dist_pt [1, 0] ([[0, 0], [1, 0], [10, 10], [11, 10]] ! m) = Inr d \<and> sqrt 8 < d)"
  by (simp add: eval_nat_numeral All_less_Suc dist_pt_pair)

subsection \<open>Coordinates beyond the second\<close>

text \<open>
  The helpers read the coordinates 0 and 1 of a position only, so the tracing of a
  contour and of the contour cut to two coordinates go through the same states, up to
  the cut of the current point (\<open>first_two\<close>).
\<close>

lemma getitem_take2:
  "getitem (take 2 p) 0 = getitem p 0"
  "getitem (take 2 p) 1 = getitem p 1"
  "getitem (take 2 p) (Suc 0) = getitem p (Suc 0)"
  by (auto simp: getitem_def)

lemma dist_pt_take2: "dist_pt (take 2 p) (take 2 q) = dist_pt p q"
  by (simp add: dist_pt_def getitem_take2 cong: sum.case_cong)

lemma draw_line_take2: "draw_line (take 2 p) (take 2 q) d = draw_line p q d"
  by (simp add: draw_line_def getitem_take2 cong: sum.case_cong if_cong)

lemma find_nearest_loop_take2:
  "find_nearest_loop (take 2 point) (enumerate k (map (take 2) contour)) processed acc
     = find_nearest_loop point (enumerate k contour) processed acc"
proof (induction contour arbitrary: k acc)
  case Nil
  show ?case by (cases acc) simp
next
  case (Cons p contour)
  obtain nearest distance where acc: "acc = (nearest, distance)" by (cases acc)
  show ?case unfolding acc by (simp add: dist_pt_take2 Cons.IH split: sum.splits)
qed

lemma find_nearest_take2:
  "find_nearest (take 2 point) (map (take 2) contour) processed
     = find_nearest point contour processed"
  by (simp add: find_nearest_def find_nearest_loop_take2)

lemma tour_body_take2:
  "tour_body (map (take 2) contour) (first_two s) = map_sum id first_two_ctl (tour_body contour s)"
proof -
  obtain point processed contour_final where s: "s = (point, processed, contour_final)"
    by (cases s)
  show ?thesis
  proof (cases "find_nearest point contour processed")
    case (Inl e)
    then show ?thesis unfolding s by (simp add: find_nearest_take2)
  next
    case (Inr r)
    show ?thesis
    proof (cases "py_index r < length contour")
      case True
      with Inr show ?thesis unfolding s
        by (cases "draw_line point (contour ! py_index r) divider")
           (simp_all add: find_nearest_take2 getitem_def draw_line_take2)
    next
      case False
      with Inr show ?thesis unfolding s
        by (simp add: find_nearest_take2 getitem_def)
    qed
  qed
qed

lemma tour_loop_take2:
  "tour_loop (map (take 2) contour) (first_two s) = map_sum id first_two (tour_loop contour s)"
proof (induction contour s rule: tour_loop.induct)
  case (1 contour s)
  show ?case
  proof (cases "tour_body contour s")
    case (Inl e)
    then show ?thesis
      by (simp add: tour_loop.simps[of contour s]
            tour_loop.simps[of "map (take 2) contour" "first_two s"] tour_body_take2)
  next
    case (Inr c)
    show ?thesis
    proof (cases c)
      case (Break s')
      with Inr show ?thesis
        by (simp add: tour_loop.simps[of contour s]
              tour_loop.simps[of "map (take 2) contour" "first_two s"] tour_body_take2)
    next
      case (Continue s')
      from "1.IH"[OF Inr Continue] Inr Continue show ?thesis
        by (simp add: tour_loop.simps[of contour s]
              tour_loop.simps[of "map (take 2) contour" "first_two s"] tour_body_take2)
    qed
  qed
qed

lemma order_path_take2: "order_path (map (take 2) contour) = order_path contour"
proof (cases "contour = []")
  case True
  then show ?thesis by simp
next
  case False
  then have first: "getitem contour 0 = Inr (contour ! 0)"
    "getitem (map (take 2) contour) 0 = Inr (take 2 (contour ! 0))"
    by (simp_all add: getitem_def)
  have loop: "tour_loop (map (take 2) contour) (take 2 (contour ! 0), [0], [])
                = map_sum id first_two (tour_loop contour (contour ! 0, [0], []))"
    using tour_loop_take2[of contour "(contour ! 0, [0], [])"] by simp
  show ?thesis
  proof (cases "tour_loop contour (contour ! 0, [0], [])")
    case (Inl e)
    then show ?thesis by (simp add: order_path_def first loop)
  next
    case (Inr t)
    obtain point processed contour_final where t: "t = (point, processed, contour_final)"
      by (cases t)
    with Inr show ?thesis by (simp add: order_path_def first loop draw_line_take2)
  qed
qed

lemma order_path_points:
  assumes "order_path contour = Inr path"
  shows "\<forall>pt \<in> set path. length pt = 2"
proof -
  from assms have ne: "contour \<noteq> []"
    by (auto simp: order_path_def getitem_def)
  with assms obtain point processed contour_final pts where
    loop: "tour_loop contour (contour ! 0, [0], []) = Inr (point, processed, contour_final)"
    and line: "draw_line point (contour ! 0) divider = Inr pts"
    and path: "path = contour_final @ pts"
    by (auto simp: order_path_def getitem_def split: sum.splits)
  from tour_loop_reach[OF reach_init[OF ne] loop]
  have "tour_reach contour (point, processed, contour_final)" by simp
  from tour_reach_path[OF this refl] have "\<forall>pt \<in> set contour_final. length pt = 2" by simp
  with draw_line_shape[OF line] path show ?thesis by auto
qed

lemma tour_three:
  "tour_loop [[0, 0, 7], [1, 0, 7]] ([0, 0, 7], [0], []) =
     Inr ([1, 0, 7], [0, 1], [[- 1 / 2, 0], [- 1, 0]])"
  by (simp add: tour_loop.simps find_nearest_def enumerate_eq_zip dist_pt_def upt_rec
        getitem_def draw_line_def divider_def sqrt_less_numeral numeral_less_sqrt upto.simps)

section \<open>Properties\<close>

subsection \<open>The interpolation routine\<close>

text \<open>
  On positions with two coordinates and \<^verbatim>\<open>divider = 2\<close> the routine returns two points:
  the origin moved by half the difference \<^verbatim>\<open>p1 - p2\<close>, and by the whole of it. The
  deltas are taken from the destination to the origin, so the points lie on the far side
  of the origin (\<open>draw_line_pair\<close>), and the last one is the destination only when the
  two positions agree (\<open>draw_line_misses_destination\<close>).
\<close>

text \<open>
  C1. The claim: for distinct points \<^verbatim>\<open>p1\<close> (origin) and \<^verbatim>\<open>p2\<close> (destination) and
  \<^verbatim>\<open>divider = 2\<close>, the interpolation routine returns two points on the segment from
  \<^verbatim>\<open>p1\<close> to \<^verbatim>\<open>p2\<close>, the last one being \<^verbatim>\<open>p2\<close>; the docstring of \<^verbatim>\<open>__draw_line\<close> says
  the same. The code does otherwise: from the origin \<open>(0, 0)\<close> to the destination
  \<open>(1, 0)\<close> it returns \<open>(-0.5, 0)\<close> and \<open>(-1, 0)\<close>, where the claim has \<open>(0.5, 0)\<close> and
  \<open>(1, 0)\<close>.
\<close>

theorem draw_line_leaves_segment:
  "draw_line [0, 0] [1, 0] divider = Inr [[- 1 / 2, 0], [- 1, 0]]"
  by (simp add: divider_def draw_line_pair)

subsection \<open>The unit square\<close>

text \<open>
  C2. The claim: for the corners of the unit square, \<open>(0,0), (1,0), (1,1), (0,1)\<close> in this
  order, the positions are visited in this order and the path is
  \<open>(0.5,0), (1,0), (1,0.5), (1,1), (0.5,1), (0,1), (0,0.5), (0,0)\<close>. The code visits the
  positions in this order and returns eight points, but not these: every segment is drawn
  by \<^verbatim>\<open>__draw_line\<close>, away from its destination.
\<close>

theorem square_path:
  "tour_loop [[0, 0], [1, 0], [1, 1], [0, 1]] ([0, 0], [0], []) =
     Inr ([0, 1], [0, 1, 2, 3],
          [[- 1 / 2, 0], [- 1, 0], [1, - 1 / 2], [1, - 1], [3 / 2, 1], [2, 1]]) \<and>
   order_path [[0, 0], [1, 0], [1, 1], [0, 1]] =
     Inr [[- 1 / 2, 0], [- 1, 0], [1, - 1 / 2], [1, - 1], [3 / 2, 1], [2, 1],
          [0, 3 / 2], [0, 2]]"
  by (simp add: order_path_def tour_square getitem_def draw_line_pair divider_def)

subsection \<open>The closing segment\<close>

text \<open>
  What holds of the closing step: for every contour that is not empty and whose positions
  have two coordinates, the loop returns in a state where the loop body leaves the loop;
  then the interpolation routine is run from the last point to \<^verbatim>\<open>contour[0]\<close>, returns
  \<^verbatim>\<open>divider\<close> points, and these are appended to the path of the loop. Nothing is asked of
  the distance between the two.
\<close>

lemma closing_segment_appended:
  assumes "contour \<noteq> []" and "two_coords contour"
  shows "\<exists>point processed contour_final pts.
           tour_loop contour (contour ! 0, [0], []) = Inr (point, processed, contour_final) \<and>
           tour_body contour (point, processed, contour_final)
             = Inr (Break (point, processed, contour_final)) \<and>
           draw_line point (contour ! 0) divider = Inr pts \<and>
           length pts = nat divider \<and>
           order_path contour = Inr (contour_final @ pts)"
proof -
  from assms(1) have init: "tour_reach contour (contour ! 0, [0], [])" by (rule reach_init)
  from tour_loop_total[OF assms(2) init] obtain point processed contour_final where
    loop: "tour_loop contour (contour ! 0, [0], []) = Inr (point, processed, contour_final)"
    by (metis prod_cases3)
  from tour_loop_reach[OF init loop]
  have reach: "tour_reach contour (point, processed, contour_final)"
    and stop: "tour_body contour (point, processed, contour_final)
                 = Inr (Break (point, processed, contour_final))" by simp_all
  from tour_reach_point[OF reach] assms have "2 \<le> length point" "2 \<le> length (contour ! 0)"
    by (simp_all add: two_coords_def)
  from draw_line_total[OF this] obtain pts where
    pts: "draw_line point (contour ! 0) divider = Inr pts" "length pts = 2" by blast
  from assms(1) loop pts have "order_path contour = Inr (contour_final @ pts)"
    by (simp add: order_path_def getitem_def)
  with loop stop pts show ?thesis by (simp add: divider_def)
qed

text \<open>
  C3. The claim: when the loop is left, by either condition, \<^verbatim>\<open>divider\<close> interpolated
  points that connect the last point back to \<^verbatim>\<open>contour[0]\<close> are appended, with no test of
  the distance. The code appends two points without a test, but they do not connect the
  last point to \<^verbatim>\<open>contour[0]\<close>: on the positions \<open>(0,0), (2,0), (4,0), (6,0)\<close> the tour
  ends at \<open>(6,0)\<close>, and the closing segment drawn by \<^verbatim>\<open>__draw_line\<close> is \<open>(9,0), (12,0)\<close>,
  where the claim has \<open>(3,0), (0,0)\<close>.
\<close>

theorem closing_segment_leaves_start:
  "tour_loop [[0, 0], [2, 0], [4, 0], [6, 0]] ([0, 0], [0], []) =
     Inr ([6, 0], [0, 1, 2, 3], [[- 1, 0], [- 2, 0], [1, 0], [0, 0], [3, 0], [2, 0]]) \<and>
   draw_line [6, 0] [0, 0] divider = Inr [[9, 0], [12, 0]] \<and>
   order_path [[0, 0], [2, 0], [4, 0], [6, 0]] =
     Inr [[- 1, 0], [- 2, 0], [1, 0], [0, 0], [3, 0], [2, 0], [9, 0], [12, 0]]"
  by (simp add: order_path_def tour_line getitem_def draw_line_pair divider_def)

subsection \<open>The tour\<close>

text \<open>
  C4. In the list of positions visited by the tour of a contour that is not empty, two
  positions visited one after the other are at a distance of at most \<open>\<surd>8\<close>. In a state where
  all positions not visited are farther than \<open>\<surd>8\<close> from the current point, the loop body
  leaves the loop with the state unchanged.
\<close>

theorem hops_within_threshold:
  assumes "contour \<noteq> []"
      and "tour_loop contour (contour ! 0, [0], []) = Inr (point, processed, contour_final)"
  shows "(\<forall>k. Suc k < length processed \<longrightarrow>
            (\<exists>d. dist_pt (contour ! (processed ! k)) (contour ! (processed ! Suc k)) = Inr d \<and>
                 d \<le> sqrt 8)) \<and>
         (\<forall>pt pr cf.
            (\<forall>m < length contour. m \<notin> set pr \<longrightarrow>
               (\<exists>d. dist_pt pt (contour ! m) = Inr d \<and> sqrt 8 < d))
            \<longrightarrow> tour_body contour (pt, pr, cf) = Inr (Break (pt, pr, cf)))"
proof (intro conjI allI impI)
  fix k assume k: "Suc k < length processed"
  from tour_loop_reach[OF reach_init[OF assms(1)] assms(2)]
  have "tour_reach contour (point, processed, contour_final)" by simp
  from tour_reach_hops[OF this refl k]
  show "\<exists>d. dist_pt (contour ! (processed ! k)) (contour ! (processed ! Suc k)) = Inr d \<and>
                 d \<le> sqrt 8" .
next
  fix pt pr cf
  assume "\<forall>m < length contour. m \<notin> set pr \<longrightarrow>
               (\<exists>d. dist_pt pt (contour ! m) = Inr d \<and> sqrt 8 < d)"
  from find_nearest_all_far[OF this]
  show "tour_body contour (pt, pr, cf) = Inr (Break (pt, pr, cf))" by simp
qed

theorem hops_within_threshold_witness:
  "[[0, 0], [1, 0], [10, 10], [11, 10]] \<noteq> ([] :: int list list) \<and>
   tour_loop [[0, 0], [1, 0], [10, 10], [11, 10]]
     ([[0, 0], [1, 0], [10, 10], [11, 10]] ! 0, [0], []) =
     Inr ([1, 0], [0, 1], [[- 1 / 2, 0], [- 1, 0]]) \<and>
   (\<exists>d. dist_pt ([[0, 0], [1, 0], [10, 10], [11, 10]] ! ([0, 1] ! 0))
               ([[0, 0], [1, 0], [10, 10], [11, 10]] ! ([0, 1] ! Suc 0)) = Inr d \<and>
        d \<le> sqrt 8) \<and>
   tour_body [[0, 0], [1, 0], [10, 10], [11, 10]] ([1, 0], [0, 1], [[- 1 / 2, 0], [- 1, 0]])
     = Inr (Break ([1, 0], [0, 1], [[- 1 / 2, 0], [- 1, 0]]))"
proof -
  have ne: "[[0, 0], [1, 0], [10, 10], [11, 10]] \<noteq> ([] :: int list list)" by simp
  have loop: "tour_loop [[0, 0], [1, 0], [10, 10], [11, 10]]
     ([[0, 0], [1, 0], [10, 10], [11, 10]] ! 0, [0], []) =
     Inr ([1, 0], [0, 1], [[- 1 / 2, 0], [- 1, 0]])" by (simp add: tour_clusters)
  from hops_within_threshold[OF ne loop] clusters_rest_far ne loop show ?thesis
    by (metis One_nat_def length_Cons lessI list.size(3))
qed

text \<open>
  What holds of clusters: let \<open>C\<close> be a set of positions that holds position 0 and is
  farther than \<open>\<surd>8\<close> from every position outside of it. Then every position the tour
  visits is in \<open>C\<close>; when the loop is left, all positions not visited are farther than
  \<open>\<surd>8\<close> from the last point; the path is made of one segment of the interpolation routine
  for each two positions visited one after the other, and of the closing segment the
  routine returns for the last point and \<^verbatim>\<open>contour[0]\<close>.
\<close>

lemma tour_stays_in_cluster:
  assumes "contour \<noteq> []" and "two_coords contour" and "0 \<in> C"
      and "\<forall>i < length contour. \<forall>j < length contour. i \<in> C \<longrightarrow> j \<notin> C \<longrightarrow>
             (\<exists>d. dist_pt (contour ! i) (contour ! j) = Inr d \<and> sqrt 8 < d)"
  shows "\<exists>point processed contour_final pts.
           tour_loop contour (contour ! 0, [0], []) = Inr (point, processed, contour_final) \<and>
           set processed \<subseteq> C \<and> processed \<noteq> [] \<and> point = contour ! last processed \<and>
           (\<forall>m < length contour. m \<notin> set processed \<longrightarrow>
              (\<exists>d. dist_pt point (contour ! m) = Inr d \<and> sqrt 8 < d)) \<and>
           length contour_final = 2 * (length processed - 1) \<and>
           (\<forall>k. Suc k < length processed \<longrightarrow>
              draw_line (contour ! (processed ! k)) (contour ! (processed ! Suc k)) divider
                = Inr (take 2 (drop (2 * k) contour_final))) \<and>
           draw_line point (contour ! 0) divider = Inr pts \<and>
           order_path contour = Inr (contour_final @ pts)"
proof -
  from assms(1) have init: "tour_reach contour (contour ! 0, [0], [])" by (rule reach_init)
  from tour_loop_total[OF assms(2) init] obtain point processed contour_final where
    loop: "tour_loop contour (contour ! 0, [0], []) = Inr (point, processed, contour_final)"
    by (metis prod_cases3)
  from tour_loop_reach[OF init loop]
  have reach: "tour_reach contour (point, processed, contour_final)"
    and stop: "tour_body contour (point, processed, contour_final)
                 = Inr (Break (point, processed, contour_final))" by simp_all
  from tour_reach_cluster[OF assms(4,3) reach refl] have sub: "set processed \<subseteq> C" .
  from tour_reach_processed[OF reach refl] have nodes: "processed \<noteq> []"
    "hd processed = 0" "point = contour ! last processed" by simp_all
  from nodes(1,2) have zero: "0 \<in> set processed" by (metis hd_in_set)
  from tour_reach_point[OF reach] assms(1,2) have two: "2 \<le> length point"
    "2 \<le> length (contour ! 0)" by (simp_all add: two_coords_def)
  from two(1) have "point \<noteq> []" by auto
  with tour_body_Break[OF stop] obtain r where
    r: "find_nearest point contour processed = Inr r" "py_eq_False r" by blast
  have "r = PyFalse"
  proof (cases r)
    case (PyInt n)
    with r(2) have "n = 0" by simp
    with find_nearest_PyInt r(1) PyInt zero show ?thesis by blast
  qed simp
  with r(1) have far: "\<forall>m < length contour. m \<notin> set processed \<longrightarrow>
              (\<exists>d. dist_pt point (contour ! m) = Inr d \<and> sqrt 8 < d)"
    using find_nearest_PyFalse by blast
  from tour_reach_path[OF reach refl]
  have path: "length contour_final = 2 * (length processed - 1)"
    "\<forall>k. Suc k < length processed \<longrightarrow>
              draw_line (contour ! (processed ! k)) (contour ! (processed ! Suc k)) divider
                = Inr (take 2 (drop (2 * k) contour_final))" by simp_all
  from draw_line_total[OF two] obtain pts where
    pts: "draw_line point (contour ! 0) divider = Inr pts" by blast
  from assms(1) loop pts have "order_path contour = Inr (contour_final @ pts)"
    by (simp add: order_path_def getitem_def)
  with loop sub nodes(1,3) far path pts show ?thesis by blast
qed

text \<open>
  C5. The claim: of clusters farther than \<open>\<surd>8\<close> from each other only the one of position
  0 is traced; the tour closes back to \<^verbatim>\<open>contour[0]\<close>, and no point of another cluster
  appears in the path. The code visits the positions of the first cluster only, but the
  path it returns does not close back to \<^verbatim>\<open>contour[0]\<close> and may hold a point of another
  cluster: on \<open>(0,0), (2,0), (4,0), (6,0)\<close> and the far position \<open>(12,0)\<close> the tour visits
  the first four positions, and the closing segment drawn by \<^verbatim>\<open>__draw_line\<close> from
  \<open>(6,0)\<close> is \<open>(9,0), (12,0)\<close>: the path ends on the position of the other cluster, where
  the claim has \<open>(3,0), (0,0)\<close>.
\<close>

theorem other_cluster_point_in_path:
  "dist_pt [0, 0] [12, 0] = Inr 12 \<and> dist_pt [2, 0] [12, 0] = Inr 10 \<and>
   dist_pt [4, 0] [12, 0] = Inr 8 \<and> dist_pt [6, 0] [12, 0] = Inr 6 \<and> sqrt 8 < 6 \<and>
   tour_loop [[0, 0], [2, 0], [4, 0], [6, 0], [12, 0]] ([0, 0], [0], []) =
     Inr ([6, 0], [0, 1, 2, 3], [[- 1, 0], [- 2, 0], [1, 0], [0, 0], [3, 0], [2, 0]]) \<and>
   order_path [[0, 0], [2, 0], [4, 0], [6, 0], [12, 0]] =
     Inr [[- 1, 0], [- 2, 0], [1, 0], [0, 0], [3, 0], [2, 0], [9, 0], [12, 0]] \<and>
   map real_of_int ([[0, 0], [2, 0], [4, 0], [6, 0], [12, 0]] ! 4) = [12, 0]"
  by (simp add: order_path_def tour_two_clusters getitem_def dist_pt_pair draw_line_pair
        divider_def sqrt_less_numeral)

text \<open>
  C6. When a pass of the loop extends the tour, the position appended to \<^verbatim>\<open>processed\<close>
  is not visited yet, no position not visited is nearer to the current point, and no
  position not visited at the same distance has a lower index.
\<close>

theorem nearest_lowest_index:
  assumes "tour_body contour (point, processed, contour_final) = Inr (Continue (q, processed', contour_final'))"
  shows "\<exists>n d. processed' = processed @ [n] \<and> q = contour ! n \<and>
           n < length contour \<and> n \<notin> set processed \<and>
           dist_pt point (contour ! n) = Inr d \<and>
           (\<forall>m < length contour. m \<notin> set processed \<longrightarrow>
              (\<exists>d'. dist_pt point (contour ! m) = Inr d' \<and> d \<le> d' \<and> (d' = d \<longrightarrow> n \<le> m)))"
proof -
  from tour_body_Continue[OF assms] obtain n pts where
    near: "find_nearest point contour processed = Inr (PyInt n)"
    and s': "(q, processed', contour_final') = (contour ! n, processed @ [n], contour_final @ pts)"
    by blast
  from find_nearest_PyInt[OF near] obtain d where
    n: "n < length contour" "n \<notin> set processed"
    and d: "dist_pt point (contour ! n) = Inr d"
    and least: "\<forall>m < length contour. m \<notin> set processed \<longrightarrow>
                 (\<exists>d'. dist_pt point (contour ! m) = Inr d' \<and> d \<le> d' \<and> (m < n \<longrightarrow> d < d'))"
    by blast
  have "\<exists>d'. dist_pt point (contour ! m) = Inr d' \<and> d \<le> d' \<and> (d' = d \<longrightarrow> n \<le> m)"
    if "m < length contour" "m \<notin> set processed" for m
  proof -
    from least that obtain d' where
      "dist_pt point (contour ! m) = Inr d'" "d \<le> d'" "m < n \<longrightarrow> d < d'" by blast
    then show ?thesis by (intro exI[of _ d']) auto
  qed
  with s' n d show ?thesis by blast
qed

theorem nearest_lowest_index_witness:
  "tour_body [[0, 0], [1, 0], [1, 1], [0, 1]] ([0, 0], [0], [])
     = Inr (Continue ([1, 0], [0, 1], [[- 1 / 2, 0], [- 1, 0]])) \<and>
   dist_pt [0, 0] ([[0, 0], [1, 0], [1, 1], [0, 1]] ! 1) = Inr 1 \<and>
   dist_pt [0, 0] ([[0, 0], [1, 0], [1, 1], [0, 1]] ! 3) = Inr 1 \<and>
   (\<exists>n d. [0, 1] = [0] @ [n] \<and> [1, 0] = [[0, 0], [1, 0], [1, 1], [0, 1]] ! n \<and>
      n < length [[0, 0], [1, 0], [1, 1], [0, 1::int]] \<and> n \<notin> set [0] \<and>
      dist_pt [0, 0] ([[0, 0], [1, 0], [1, 1], [0, 1]] ! n) = Inr d \<and>
      (\<forall>m < length [[0, 0], [1, 0], [1, 1], [0, 1::int]]. m \<notin> set [0] \<longrightarrow>
         (\<exists>d'. dist_pt [0, 0] ([[0, 0], [1, 0], [1, 1], [0, 1]] ! m) = Inr d' \<and>
               d \<le> d' \<and> (d' = d \<longrightarrow> n \<le> m))))"
proof -
  have step: "tour_body [[0, 0], [1, 0], [1, 1], [0, 1]] ([0, 0], [0], [])
     = Inr (Continue ([1, 0], [0, 1], [[- 1 / 2, 0], [- 1, 0]]))"
    by (simp add: eval_tour)
  have ties: "dist_pt [0, 0] ([[0, 0], [1, 0], [1, 1], [0, 1]] ! 1) = Inr 1"
    "dist_pt [0, 0] ([[0, 0], [1, 0], [1, 1], [0, 1]] ! 3) = Inr 1"
    by (simp_all add: dist_pt_pair eval_nat_numeral)
  note main = nearest_lowest_index[OF step]
  from main step ties show ?thesis by simp
qed

text \<open>
  C10. In every state the loop passes through, position 0 is in \<^verbatim>\<open>processed\<close>, the search
  does not return position 0, and the test \<^verbatim>\<open>False == nearest_pos\<close> holds for the result of
  the search only when the result is \<^verbatim>\<open>False\<close>.
\<close>

theorem no_position_zero:
  assumes "tour_reach contour (point, processed, contour_final)"
  shows "0 \<in> set processed \<and> find_nearest point contour processed \<noteq> Inr (PyInt 0) \<and>
         (\<forall>r. find_nearest point contour processed = Inr r \<longrightarrow> py_eq_False r = (r = PyFalse))"
proof -
  from tour_reach_processed[OF assms refl] have "processed \<noteq> []" "hd processed = 0"
    by simp_all
  then have zero: "0 \<in> set processed" by (metis hd_in_set)
  have nz: "find_nearest point contour processed \<noteq> Inr (PyInt 0)"
  proof
    assume "find_nearest point contour processed = Inr (PyInt 0)"
    from find_nearest_PyInt[OF this] zero show False by simp
  qed
  have "py_eq_False r = (r = PyFalse)" if "find_nearest point contour processed = Inr r" for r
    using that nz by (cases r) auto
  with zero nz show ?thesis by blast
qed

theorem no_position_zero_witness:
  "tour_reach [[0, 0], [1, 0]] ([1, 0], [0, 1], [[- 1 / 2, 0], [- 1, 0]]) \<and>
   (0::nat) \<in> set [0, 1] \<and>
   find_nearest [1, 0] [[0, 0], [1, 0]] [0, 1] = Inr PyFalse \<and>
   py_eq_False PyFalse = (PyFalse = PyFalse)"
proof -
  have "tour_reach [[0, 0], [1, 0]] ([[0, 0], [1, 0]] ! 0, [0], [])"
    by (rule reach_init) simp
  moreover have "tour_body [[0, 0], [1, 0]] ([[0, 0], [1, 0]] ! 0, [0], [])
    = Inr (Continue ([1, 0], [0, 1], [[- 1 / 2, 0], [- 1, 0]]))"
    by (simp add: eval_tour)
  ultimately have reach: "tour_reach [[0, 0], [1, 0]] ([1, 0], [0, 1], [[- 1 / 2, 0], [- 1, 0]])"
    by (rule reach_step)
  have "find_nearest [1, 0] [[0, 0], [1, 0]] [0, 1] = Inr PyFalse"
    by (simp add: eval_tour)
  with no_position_zero[OF reach] reach show ?thesis by simp
qed

subsection \<open>The slice\<close>

text \<open>
  C7. On an empty contour the slice ends without an error: no file is written, and the
  only effect is the warning that the contour is empty and the slice is skipped. The path
  is not computed at all.
\<close>

theorem empty_contour_skipped:
  "\<exists>w'. main_slice w file_name [] = Inr w' \<and> files w' = files w \<and>
        logged w' = logged w @
          [LogWarning (''Empty contour for file '' @ file_name @ ''. Skipping.'')]"
  by (simp add: main_slice_def)

text \<open>
  C9. The path of a contour is the path of the contour with every position cut to its
  first two coordinates, whatever the number of coordinates of the positions; and every
  point of a path has exactly two coordinates.
\<close>

theorem path_points_two_coordinates:
  "order_path (map (take 2) contour) = order_path contour \<and>
   (\<forall>path. order_path contour = Inr path \<longrightarrow> (\<forall>pt \<in> set path. length pt = 2))"
  using order_path_take2 order_path_points by blast

theorem path_points_two_coordinates_witness:
  "order_path [[0, 0, 7], [1, 0, 7]] = Inr [[- 1 / 2, 0], [- 1, 0], [3 / 2, 0], [2, 0]] \<and>
   order_path (map (take 2) [[0, 0, 7], [1, 0, 7]]) = order_path [[0, 0, 7], [1, 0, 7]] \<and>
   length [- 1 / 2, 0 :: real] = 2 \<and> length [- 1, 0 :: real] = 2 \<and>
   length [3 / 2, 0 :: real] = 2 \<and> length [2, 0 :: real] = 2"
proof -
  have path: "order_path [[0, 0, 7], [1, 0, 7]] = Inr [[- 1 / 2, 0], [- 1, 0], [3 / 2, 0], [2, 0]]"
    by (simp add: order_path_def tour_three getitem_def draw_line_def divider_def upto.simps)
  from path_points_two_coordinates[of "[[0, 0, 7], [1, 0, 7]]"] path show ?thesis
    by simp
qed

end
